theory Spec2Isabelle
  imports Main
begin

section \<open>The screen recorder component\<close>

text \<open>
  The development embeds the logic of \<^verbatim>\<open>src/components/ScreenRecorder.tsx\<close>: the
  React component \<^verbatim>\<open>ScreenRecorder\<close>, its state hooks, its refs and its handlers
  (\<^verbatim>\<open>startTimer\<close>, \<^verbatim>\<open>stopTimer\<close>, \<^verbatim>\<open>startRecording\<close>, the recorder's
  \<^verbatim>\<open>ondataavailable\<close> and \<^verbatim>\<open>onstop\<close>, \<^verbatim>\<open>stopRecording\<close>,
  \<^verbatim>\<open>downloadRecording\<close>).

  Three things of the source are made explicit, since HOL functions are pure:
  \<^item> the platform objects that the refs point to (media recorders, interval timers, tracks)
    live in a store inside the state, and a ref holds an index into it;
  \<^item> a call of the platform that may throw takes its outcome as an argument, and an
    \<^verbatim>\<open>await\<close> ends a step: the function goes on in a later step, when the
    platform answers, and other events may come in between;
  \<^item> a JavaScript function closes over the constants of the render in which it was
    created; the values a handler reads from its closure (and not from a ref or from the
    argument of a state updater) are passed to the handler's model as arguments.
\<close>

subsection \<open>Platform values\<close>

type_synonym track = nat

text \<open>A \<^verbatim>\<open>MediaStream\<close>: its video tracks and its audio tracks.\<close>

record media_stream =
  videoTracks :: "track list"
  audioTracks :: "track list"

definition getTracks :: "media_stream \<Rightarrow> track list" where
  "getTracks m = videoTracks m @ audioTracks m"

datatype dom_error =
  NotAllowedError | NotFoundError | NotReadableError | AbortError
  | NotSupportedError | InvalidStateError | UnknownError

record blob =
  blob_size :: nat
  blob_type :: string

text \<open>\<^verbatim>\<open>new Blob(parts, { type })\<close>: the parts are concatenated.\<close>

definition new_Blob :: "blob list \<Rightarrow> string \<Rightarrow> blob" where
  "new_Blob parts ty = \<lparr>blob_size = sum_list (map blob_size parts), blob_type = ty\<rparr>"

text \<open>
  A \<^verbatim>\<open>Date\<close>, given by its calendar fields in UTC (the fields that
  \<^verbatim>\<open>toISOString\<close> prints). Months are counted from 1.
\<close>

record js_date =
  utc_year :: int
  utc_month :: nat
  utc_day :: nat
  utc_hours :: nat
  utc_minutes :: nat
  utc_seconds :: nat
  utc_milliseconds :: nat

definition digit :: "nat \<Rightarrow> char" where
  "digit n = ''0123456789'' ! (n mod 10)"

text \<open>\<^verbatim>\<open>n.toString()\<close> of a natural number: its decimal digits.\<close>

fun toString :: "nat \<Rightarrow> string" where
  "toString n = (if n < 10 then [digit n] else toString (n div 10) @ [digit n])"

declare toString.simps [simp del]

text \<open>\<^verbatim>\<open>str.padStart(k, c)\<close> for a one-character pad \<^verbatim>\<open>c\<close>.\<close>

definition padStart :: "nat \<Rightarrow> char \<Rightarrow> string \<Rightarrow> string" where
  "padStart k c str = replicate (k - length str) c @ str"

text \<open>
  \<^verbatim>\<open>Date.prototype.toISOString\<close> is a function of the platform, not of the
  repository; it is modelled from ECMAScript's date time string format:
  \<^verbatim>\<open>YYYY-MM-DDTHH:mm:ss.sssZ\<close>, where a year outside 0 .. 9999 is written as an
  expanded year, a sign followed by six digits.
\<close>

definition year_string :: "int \<Rightarrow> string" where
  "year_string y =
     (if 0 \<le> y \<and> y \<le> 9999 then padStart 4 CHR ''0'' (toString (nat y))
      else (if y < 0 then ''-'' else ''+'') @ padStart 6 CHR ''0'' (toString (nat \<bar>y\<bar>)))"

definition toISOString :: "js_date \<Rightarrow> string" where
  "toISOString d =
     year_string (utc_year d) @ ''-'' @
     padStart 2 CHR ''0'' (toString (utc_month d)) @ ''-'' @
     padStart 2 CHR ''0'' (toString (utc_day d)) @ ''T'' @
     padStart 2 CHR ''0'' (toString (utc_hours d)) @ '':'' @
     padStart 2 CHR ''0'' (toString (utc_minutes d)) @ '':'' @
     padStart 2 CHR ''0'' (toString (utc_seconds d)) @ ''.'' @
     padStart 3 CHR ''0'' (toString (utc_milliseconds d)) @ ''Z''"

text \<open>\<^verbatim>\<open>str.slice(0, k)\<close>: the first \<^verbatim>\<open>k\<close> characters, or all of a shorter string.\<close>

definition slice0 :: "nat \<Rightarrow> string \<Rightarrow> string" where
  "slice0 k str = take k str"

subsection \<open>The data of the component\<close>

text \<open>
  The interface \<^verbatim>\<open>Recording\<close>. The fields \<^verbatim>\<open>id\<close>, \<^verbatim>\<open>blob\<close>,
  \<^verbatim>\<open>url\<close> and \<^verbatim>\<open>size\<close> carry a suffix, since HOL has constants of these names.
\<close>

record recording =
  id_rec :: string
  blob_rec :: blob
  url_rec :: string
  duration :: int
  timestamp :: js_date
  size_rec :: nat

text \<open>
  A \<^verbatim>\<open>MediaRecorder\<close>. Its \<^verbatim>\<open>state\<close> is \<^verbatim>\<open>inactive\<close> or
  \<^verbatim>\<open>recording\<close> (the component never pauses one). After \<^verbatim>\<open>stop()\<close> the state is
  \<^verbatim>\<open>inactive\<close> at once, and the platform has queued the task that delivers the last
  data and then the \<^verbatim>\<open>stop\<close> event: \<open>stop_queued\<close>. The handler
  \<^verbatim>\<open>onstop\<close> is created inside \<^verbatim>\<open>startRecording\<close> and reads the constant
  \<^verbatim>\<open>recordingTime\<close> of the render that created that \<^verbatim>\<open>startRecording\<close>:
  \<open>onstop_recordingTime\<close>.
\<close>

datatype recorder_state = Inactive | Recording

record media_recorder =
  rstate :: recorder_state
  stop_queued :: bool
  onstop_recordingTime :: int

text \<open>
  An interval timer made by \<^verbatim>\<open>startTimer\<close>. Its callback calls the
  \<^verbatim>\<open>stopRecording\<close> of the render that created the \<^verbatim>\<open>startTimer\<close>, and that
  \<^verbatim>\<open>stopRecording\<close> reads the constant \<^verbatim>\<open>isRecording\<close> of the same render:
  \<open>timer_isRecording\<close>.
\<close>

record interval =
  cleared :: bool
  timer_isRecording :: bool

datatype toast = Recording_started | Recording_failed | Recording_stopped | Download_started

text \<open>The constants of a render that the memoised \<^verbatim>\<open>startRecording\<close> closes over.\<close>

record scope =
  sc_isRecording :: bool
  sc_recordingTime :: int

text \<open>
  A call of \<^verbatim>\<open>startRecording\<close> that is under way: the scope of its closure, and
  the \<^verbatim>\<open>await\<close> at which it stands. After the first \<^verbatim>\<open>await\<close> its local
  constant \<^verbatim>\<open>displayStream\<close> holds the stream of the screen.
\<close>

datatype await = Await_getDisplayMedia | Await_getUserMedia media_stream | Returned

record invocation =
  closure :: scope
  awaiting :: await

text \<open>
  The state: the five \<^verbatim>\<open>useState\<close> hooks, the four refs the handlers use, the store
  of platform objects, the calls of \<^verbatim>\<open>startRecording\<close> in the order of their
  clicks, the effects on the outside (tracks handed out by the platform, tracks stopped,
  toasts shown, files offered for download, in the order they happened), and the render
  scope of the memoised \<^verbatim>\<open>startRecording\<close>. A track that was handed out and not
  stopped is live: the screen or the microphone is still captured.
\<close>

record state =
  isRecording :: bool
  recordingTime :: int
  currentRecording :: "recording option"
  recordings :: "recording list"
  isPreviewPlaying :: bool
  mediaRecorderRef :: "nat option"
  streamRef :: "media_stream option"
  chunksRef :: "blob list"
  timerRef :: "nat option"
  recorders :: "media_recorder list"
  intervals :: "interval list"
  invocations :: "invocation list"
  grantedTracks :: "track list"
  stoppedTracks :: "track list"
  toasts :: "toast list"
  downloads :: "(string \<times> string) list"
  startRecording_scope :: scope

definition initial :: state where
  "initial =
     \<lparr>isRecording = False, recordingTime = 0, currentRecording = None, recordings = [],
      isPreviewPlaying = False, mediaRecorderRef = None, streamRef = None, chunksRef = [],
      timerRef = None, recorders = [], intervals = [], invocations = [], grantedTracks = [],
      stoppedTracks = [], toasts = [],
      downloads = [], startRecording_scope = \<lparr>sc_isRecording = False, sc_recordingTime = 0\<rparr>\<rparr>"

definition toast :: "toast \<Rightarrow> state \<Rightarrow> state" where
  "toast t s = s\<lparr>toasts := toasts s @ [t]\<rparr>"

subsection \<open>The timer\<close>

text \<open>
  \<^verbatim>\<open>mediaRecorder.stop()\<close>: nothing happens on an inactive recorder; a recording one
  becomes inactive and its \<^verbatim>\<open>stop\<close> event is queued.
\<close>

definition recorder_stop :: "nat \<Rightarrow> state \<Rightarrow> state" where
  "recorder_stop r s =
     (if r < length (recorders s) \<and> rstate (recorders s ! r) = Recording
      then s\<lparr>recorders := (recorders s)[r := (recorders s ! r)\<lparr>rstate := Inactive, stop_queued := True\<rparr>]\<rparr>
      else s)"

text \<open>\<^verbatim>\<open>stopTimer\<close>: clears the interval that \<^verbatim>\<open>timerRef\<close> holds, if it holds one.\<close>

definition stopTimer :: "state \<Rightarrow> state" where
  "stopTimer s =
     (case timerRef s of
        None \<Rightarrow> s
      | Some i \<Rightarrow> s\<lparr>intervals := (intervals s)[i := (intervals s ! i)\<lparr>cleared := True\<rparr>],
                   timerRef := None\<rparr>)"

text \<open>
  \<^verbatim>\<open>stopRecording\<close>. The first argument is the \<^verbatim>\<open>isRecording\<close> of its closure
  (the hook \<^verbatim>\<open>useCallback\<close> has \<^verbatim>\<open>isRecording\<close> among its dependencies, so the
  \<^verbatim>\<open>stopRecording\<close> of a render reads the \<^verbatim>\<open>isRecording\<close> of that render).
  The recorder is read from the ref, when the function runs.
\<close>

definition stopRecording :: "bool \<Rightarrow> state \<Rightarrow> state" where
  "stopRecording closure_isRecording s =
     (case mediaRecorderRef s of
        None \<Rightarrow> s
      | Some r \<Rightarrow>
          if closure_isRecording
          then toast Recording_stopped (stopTimer ((recorder_stop r s)\<lparr>isRecording := False\<rparr>))
          else s)"

text \<open>
  The callback that \<^verbatim>\<open>startTimer\<close> gives to \<^verbatim>\<open>setInterval\<close>:
  \<^verbatim>\<open>setRecordingTime\<close> with an updater that reads the previous value of the
  counter, calls the \<^verbatim>\<open>stopRecording\<close> of the timer's closure from 179 on and
  returns 180 then, the successor otherwise. The argument is the \<^verbatim>\<open>isRecording\<close>
  which that \<^verbatim>\<open>stopRecording\<close> reads.
\<close>

definition timer_callback :: "bool \<Rightarrow> state \<Rightarrow> state" where
  "timer_callback closure_isRecording s =
     (if recordingTime s \<ge> 179
      then (stopRecording closure_isRecording s)\<lparr>recordingTime := 180\<rparr>
      else s\<lparr>recordingTime := recordingTime s + 1\<rparr>)"

text \<open>
  \<^verbatim>\<open>startTimer\<close>: a new interval, kept in \<^verbatim>\<open>timerRef\<close>. The argument is the
  \<^verbatim>\<open>isRecording\<close> that the \<^verbatim>\<open>stopRecording\<close> in the closure of this
  \<^verbatim>\<open>startTimer\<close> reads.
\<close>

definition startTimer :: "bool \<Rightarrow> state \<Rightarrow> state" where
  "startTimer closure_isRecording s =
     s\<lparr>intervals := intervals s @ [\<lparr>cleared = False, timer_isRecording = closure_isRecording\<rparr>],
       timerRef := Some (length (intervals s))\<rparr>"

subsection \<open>Starting and stopping a recording\<close>

text \<open>
  What the platform answers to the calls that one run of \<^verbatim>\<open>startRecording\<close>
  makes and that may throw:
  \<^verbatim>\<open>getDisplayMedia\<close>, \<^verbatim>\<open>getUserMedia\<close>, the constructor of
  \<^verbatim>\<open>MediaRecorder\<close> (which rejects a MIME type it does not support) and
  \<^verbatim>\<open>mediaRecorder.start\<close>.
\<close>

record platform =
  getDisplayMedia :: "dom_error + media_stream"
  getUserMedia :: "dom_error + media_stream"
  new_MediaRecorder :: "dom_error option"
  recorder_start :: "dom_error option"

text \<open>The \<^verbatim>\<open>catch\<close> block of \<^verbatim>\<open>startRecording\<close>: a toast, nothing else.\<close>

definition catch_start :: "state \<Rightarrow> state" where
  "catch_start s = toast Recording_failed s"

text \<open>
  \<^verbatim>\<open>startRecording\<close> is an \<^verbatim>\<open>async\<close> function with two
  \<^verbatim>\<open>await\<close>s, so it runs in three steps. Note that it has no test of
  \<^verbatim>\<open>isRecording\<close>, and that it sets \<^verbatim>\<open>isRecording\<close> in its last step only.

  The first step, at the click: the function is entered with the scope of its closure and
  calls \<^verbatim>\<open>getDisplayMedia\<close>. Nothing of the component changes.
\<close>

definition startRecording_call :: "scope \<Rightarrow> state \<Rightarrow> state" where
  "startRecording_call sc s =
     s\<lparr>invocations := invocations s @ [\<lparr>closure = sc, awaiting = Await_getDisplayMedia\<rparr>]\<rparr>"

definition proceed :: "nat \<Rightarrow> await \<Rightarrow> state \<Rightarrow> state" where
  "proceed c a s = s\<lparr>invocations := (invocations s)[c := (invocations s ! c)\<lparr>awaiting := a\<rparr>]\<rparr>"

text \<open>
  The second step of the call \<open>c\<close>, when \<^verbatim>\<open>getDisplayMedia\<close> has answered:
  on an error the \<^verbatim>\<open>catch\<close> block; otherwise the platform has handed out the
  tracks of the screen, and the function calls \<^verbatim>\<open>getUserMedia\<close>.
\<close>

definition startRecording_display :: "nat \<Rightarrow> platform \<Rightarrow> state \<Rightarrow> state" where
  "startRecording_display c p s =
     (case getDisplayMedia p of
        Inl e \<Rightarrow> catch_start (proceed c Returned s)
      | Inr displayStream \<Rightarrow>
          proceed c (Await_getUserMedia displayStream)
            (s\<lparr>grantedTracks := grantedTracks s @ getTracks displayStream\<rparr>))"

text \<open>
  The third step of the call \<open>c\<close>, when \<^verbatim>\<open>getUserMedia\<close> has answered: on
  an error the \<^verbatim>\<open>catch\<close> block, which does nothing about
  \<^verbatim>\<open>displayStream\<close>; otherwise the rest of the function, to its end. The refs are
  read and written as they are now; \<^verbatim>\<open>recordingTime\<close> in \<^verbatim>\<open>onstop\<close> and
  the \<^verbatim>\<open>stopRecording\<close> in \<^verbatim>\<open>startTimer\<close> are those of the closure.
\<close>

definition startRecording_audio :: "nat \<Rightarrow> media_stream \<Rightarrow> platform \<Rightarrow> state \<Rightarrow> state" where
  "startRecording_audio c displayStream p s =
     (let sc = closure (invocations s ! c);
          s0 = proceed c Returned s
      in case getUserMedia p of
        Inl e \<Rightarrow> catch_start s0
      | Inr audioStream \<Rightarrow>
     (let combinedStream = \<lparr>videoTracks = videoTracks displayStream,
                              audioTracks = audioTracks audioStream\<rparr>;
          s1 = s0\<lparr>grantedTracks := grantedTracks s0 @ getTracks audioStream,
                  streamRef := Some combinedStream, chunksRef := []\<rparr>
      in case new_MediaRecorder p of
        Some e \<Rightarrow> catch_start s1
      | None \<Rightarrow>
     (let r = length (recorders s1);
          mediaRecorder = \<lparr>rstate = Inactive, stop_queued = False,
                            onstop_recordingTime = sc_recordingTime sc\<rparr>;
          s2 = s1\<lparr>recorders := recorders s1 @ [mediaRecorder], mediaRecorderRef := Some r\<rparr>
      in case recorder_start p of
        Some e \<Rightarrow> catch_start s2
      | None \<Rightarrow>
     (let s3 = s2\<lparr>recorders := (recorders s2)[r := mediaRecorder\<lparr>rstate := Recording\<rparr>]\<rparr>;
          s4 = s3\<lparr>isRecording := True, recordingTime := 0\<rparr>;
          s5 = startTimer (sc_isRecording sc) s4
      in toast Recording_started s5))))"

text \<open>\<^verbatim>\<open>mediaRecorder.ondataavailable\<close>: a chunk that is not empty is kept.\<close>

definition ondataavailable :: "blob \<Rightarrow> state \<Rightarrow> state" where
  "ondataavailable data s =
     (if blob_size data > 0 then s\<lparr>chunksRef := chunksRef s @ [data]\<rparr> else s)"

text \<open>
  What the platform answers inside \<^verbatim>\<open>onstop\<close>: the object URL that
  \<^verbatim>\<open>URL.createObjectURL\<close> makes, the clock as \<^verbatim>\<open>Date.now()\<close> reads it
  (milliseconds) and as \<^verbatim>\<open>new Date()\<close> reads it. The assembly of the payload and
  the creation of the URL may throw; then the answer is the error.
\<close>

record finalization =
  createObjectURL :: string
  Date_now :: nat
  new_Date :: js_date

text \<open>
  \<^verbatim>\<open>mediaRecorder.onstop\<close>. The first argument is the \<^verbatim>\<open>recordingTime\<close> of
  the handler's closure. The handler has no \<^verbatim>\<open>try\<close>: an exception ends it where
  it is thrown, before any write.
\<close>

definition onstop :: "int \<Rightarrow> dom_error + finalization \<Rightarrow> state \<Rightarrow> dom_error + state" where
  "onstop closure_recordingTime fin s =
     (case fin of
        Inl e \<Rightarrow> Inl e
      | Inr f \<Rightarrow>
          (let b = new_Blob (chunksRef s) ''video/webm'';
               recording = \<lparr>id_rec = toString (Date_now f), blob_rec = b,
                            url_rec = createObjectURL f, duration = closure_recordingTime,
                            timestamp = new_Date f, size_rec = blob_size b\<rparr>;
               s1 = s\<lparr>currentRecording := Some recording,
                      recordings := recording # recordings s\<rparr>;
               s2 = s1\<lparr>stoppedTracks := stoppedTracks s1 @
                        (case streamRef s1 of None \<Rightarrow> [] | Some m \<Rightarrow> getTracks m)\<rparr>
           in Inr (s2\<lparr>streamRef := None\<rparr>)))"

text \<open>\<^verbatim>\<open>downloadRecording\<close>: the name of the file, and the click on the link.\<close>

definition download_name :: "recording \<Rightarrow> string" where
  "download_name recording =
     ''screen-recording-'' @ slice0 19 (toISOString (timestamp recording)) @ ''.webm''"

definition downloadRecording :: "recording \<Rightarrow> state \<Rightarrow> state" where
  "downloadRecording recording s =
     toast Download_started
       (s\<lparr>downloads := downloads s @ [(url_rec recording, download_name recording)]\<rparr>)"

subsection \<open>Renders and events\<close>

text \<open>
  The main button of the component: \<^verbatim>\<open>Start Recording\<close> with
  \<^verbatim>\<open>onClick={startRecording}\<close> while \<^verbatim>\<open>isRecording\<close> is false,
  \<^verbatim>\<open>Stop Recording\<close> with \<^verbatim>\<open>onClick={stopRecording}\<close> otherwise.
\<close>

datatype control = Start_Recording | Stop_Recording

definition main_control :: "state \<Rightarrow> control" where
  "main_control s = (if \<not> isRecording s then Start_Recording else Stop_Recording)"

text \<open>
  A click on the main button runs the handler of the last render: the memoised
  \<^verbatim>\<open>startRecording\<close> with the scope it closes over, or the
  \<^verbatim>\<open>stopRecording\<close> of that render, which reads that render's
  \<^verbatim>\<open>isRecording\<close>.
\<close>

definition click :: "state \<Rightarrow> state" where
  "click s =
     (case main_control s of
        Start_Recording \<Rightarrow> startRecording_call (startRecording_scope s) s
      | Stop_Recording \<Rightarrow> stopRecording (isRecording s) s)"

text \<open>
  The events of the component: a click on the main button, the answer of the platform to
  the \<^verbatim>\<open>getDisplayMedia\<close> of a call of \<^verbatim>\<open>startRecording\<close>, its answer to
  the \<^verbatim>\<open>getUserMedia\<close> of a call (with its answers to what the call does next),
  the firing of an interval, a chunk of data from a recorder, the \<^verbatim>\<open>stop\<close> event of
  a recorder, a click on a download button.
\<close>

datatype event =
  Click
  | Display_settled nat platform
  | Audio_settled nat platform
  | Tick nat
  | Data nat blob
  | Stopped nat "dom_error + finalization"
  | Download recording

text \<open>
  The platform answers a call only at the \<^verbatim>\<open>await\<close> where the call stands. It
  fires an interval only while it is not cleared, delivers data only from a
  recorder that records or whose stop is queued, and delivers a \<^verbatim>\<open>stop\<close> event
  only when it is queued. An exception that escapes \<^verbatim>\<open>onstop\<close> is reported by the
  platform; the state stays as the handler left it.
\<close>

definition dispatch :: "event \<Rightarrow> state \<Rightarrow> state" where
  "dispatch ev s =
     (case ev of
        Click \<Rightarrow> click s
      | Display_settled c p \<Rightarrow>
          if c < length (invocations s)
          then (case awaiting (invocations s ! c) of
                  Await_getDisplayMedia \<Rightarrow> startRecording_display c p s
                | _ \<Rightarrow> s)
          else s
      | Audio_settled c p \<Rightarrow>
          if c < length (invocations s)
          then (case awaiting (invocations s ! c) of
                  Await_getUserMedia displayStream \<Rightarrow> startRecording_audio c displayStream p s
                | _ \<Rightarrow> s)
          else s
      | Tick i \<Rightarrow>
          if i < length (intervals s) \<and> \<not> cleared (intervals s ! i)
          then timer_callback (timer_isRecording (intervals s ! i)) s
          else s
      | Data r b \<Rightarrow>
          if r < length (recorders s) \<and>
             (rstate (recorders s ! r) = Recording \<or> stop_queued (recorders s ! r))
          then ondataavailable b s
          else s
      | Stopped r fin \<Rightarrow>
          if r < length (recorders s) \<and> stop_queued (recorders s ! r)
          then (let s1 = s\<lparr>recorders := (recorders s)[r := (recorders s ! r)\<lparr>stop_queued := False\<rparr>]\<rparr>
                in case onstop (onstop_recordingTime (recorders s ! r)) fin s1 of
                     Inl e \<Rightarrow> s1
                   | Inr s2 \<Rightarrow> s2)
          else s
      | Download recording \<Rightarrow> downloadRecording recording s)"

text \<open>
  After an event the component renders with the new state. \<^verbatim>\<open>startRecording\<close> is
  wrapped in \<^verbatim>\<open>useCallback\<close> with the dependencies \<^verbatim>\<open>recordingTime\<close> and
  \<^verbatim>\<open>toast\<close>: the render keeps the function of the render before, unless
  \<^verbatim>\<open>recordingTime\<close> has changed; then it takes the function made in this render,
  which closes over the constants of this render: the new \<^verbatim>\<open>recordingTime\<close>, and
  the \<^verbatim>\<open>isRecording\<close> that this render has read (the first argument).

  The state updates that a handler makes are applied together, and the render reads them
  all. The updater that a tick gives to \<^verbatim>\<open>setRecordingTime\<close> runs inside the
  render, when the hook of \<^verbatim>\<open>recordingTime\<close> is reached; the hook of
  \<^verbatim>\<open>isRecording\<close> has been read by then. So when the updater stops the session,
  the render that sees the new counter, and makes the new \<^verbatim>\<open>startRecording\<close>,
  still holds \<^verbatim>\<open>isRecording = true\<close>; the render that follows sees
  \<^verbatim>\<open>isRecording = false\<close> and an unchanged counter, and keeps that function.

  The hook \<^verbatim>\<open>useToast\<close> is not among the sources; its \<^verbatim>\<open>toast\<close> is taken
  to be the same function in every render. (Were it a new function in every render,
  \<^verbatim>\<open>startRecording\<close> would be made anew in every render and would close over the
  constants of the render in which the button is clicked, where \<^verbatim>\<open>isRecording\<close>
  is false and \<^verbatim>\<open>recordingTime\<close> is the counter on display; a first session runs
  the same way under both readings.)
\<close>

definition rerender :: "bool \<Rightarrow> state \<Rightarrow> state \<Rightarrow> state" where
  "rerender read_isRecording prev s =
     (if recordingTime s = recordingTime prev then s
      else s\<lparr>startRecording_scope :=
               \<lparr>sc_isRecording = read_isRecording, sc_recordingTime = recordingTime s\<rparr>\<rparr>)"

definition step :: "event \<Rightarrow> state \<Rightarrow> state" where
  "step ev s =
     (let s1 = dispatch ev s
      in rerender (case ev of Tick i \<Rightarrow> isRecording s | _ \<Rightarrow> isRecording s1) s s1)"

fun run :: "event list \<Rightarrow> state \<Rightarrow> state" where
  "run [] s = s"
| "run (ev # evs) s = run evs (step ev s)"

subsection \<open>Sessions\<close>

text \<open>
  \<open>start_events c p\<close>: a click on the main button and the two answers of the
  platform to the call \<open>c\<close> of \<^verbatim>\<open>startRecording\<close>, with nothing in between.

  A complete session as the user and the platform drive it: the user clicks
  \<^verbatim>\<open>Start Recording\<close>, the sources are granted and the recorder starts, the timer fires \<open>seconds\<close> times, the recorder delivers
  \<open>chunks\<close>, the user presses \<^verbatim>\<open>Stop Recording\<close> if that button is still
  there, and the recorder's \<^verbatim>\<open>stop\<close> event arrives with a successful
  finalisation.
\<close>

record session =
  display :: media_stream
  microphone :: media_stream
  seconds :: nat
  chunks :: "blob list"
  final :: finalization

definition granted :: "media_stream \<Rightarrow> media_stream \<Rightarrow> platform" where
  "granted d m =
     \<lparr>getDisplayMedia = Inr d, getUserMedia = Inr m, new_MediaRecorder = None,
      recorder_start = None\<rparr>"

definition start_events :: "nat \<Rightarrow> platform \<Rightarrow> event list" where
  "start_events c p = [Click, Display_settled c p, Audio_settled c p]"

definition session_events :: "session \<Rightarrow> state \<Rightarrow> event list" where
  "session_events x s =
     (let r = length (recorders s); i = length (intervals s); c = length (invocations s)
      in start_events c (granted (display x) (microphone x)) @ replicate (seconds x) (Tick i) @
         map (Data r) (chunks x))"

definition do_session :: "session \<Rightarrow> state \<Rightarrow> state" where
  "do_session x s =
     (let r = length (recorders s);
          s1 = run (session_events x s) s;
          s2 = (if main_control s1 = Stop_Recording then step Click s1 else s1)
      in step (Stopped r (Inr (final x))) s2)"

text \<open>The tracks of the two sources that the session has acquired.\<close>

definition acquired :: "session \<Rightarrow> track list" where
  "acquired x = getTracks (display x) @ getTracks (microphone x)"

fun do_sessions :: "session list \<Rightarrow> state \<Rightarrow> state" where
  "do_sessions [] s = s"
| "do_sessions (x # xs) s = do_sessions xs (do_session x s)"

subsection \<open>What a session establishes\<close>

text \<open>
  The predicates below describe the states a session passes through; they are used in the
  proofs only. \<open>in_session s0 x k cs s\<close>: the session \<open>x\<close> was started in
  \<open>s0\<close>, the timer has fired \<open>k\<close> times and the chunks \<open>cs\<close> were
  delivered, and the user has not clicked since; \<open>stop_pending s0 x k cs s\<close>: the
  recorder of that session was stopped and its \<^verbatim>\<open>stop\<close> event is due.
  \<open>combined x\<close> is the stream that \<^verbatim>\<open>startRecording\<close> builds
  from the two sources of the session \<open>x\<close>, \<open>artifact d x\<close> the recording that
  \<^verbatim>\<open>onstop\<close> builds at the end of \<open>x\<close> when its closure holds the counter
  \<open>d\<close>, and \<open>rendered s\<close> says that the memoised \<^verbatim>\<open>startRecording\<close>
  closes over the counter that \<open>s\<close> shows.
\<close>

definition combined :: "session \<Rightarrow> media_stream" where
  "combined x = \<lparr>videoTracks = videoTracks (display x), audioTracks = audioTracks (microphone x)\<rparr>"

definition rendered :: "state \<Rightarrow> bool" where
  "rendered s \<longleftrightarrow> sc_recordingTime (startRecording_scope s) = recordingTime s"

definition stop_pending :: "state \<Rightarrow> session \<Rightarrow> nat \<Rightarrow> blob list \<Rightarrow> state \<Rightarrow> bool" where
  "stop_pending s0 x k cs s \<longleftrightarrow>
     recordings s = recordings s0 \<and> currentRecording s = currentRecording s0 \<and>
     stoppedTracks s = stoppedTracks s0 \<and> streamRef s = Some (combined x) \<and>
     chunksRef s = filter (\<lambda>c. blob_size c > 0) cs \<and>
     length (recorders s0) < length (recorders s) \<and>
     onstop_recordingTime (recorders s ! length (recorders s0)) = sc_recordingTime (startRecording_scope s0) \<and>
     recordingTime s = min (int k) 180 \<and>
     (rendered s0 \<longrightarrow> rendered s) \<and>
     \<not> isRecording s \<and> stop_queued (recorders s ! length (recorders s0))"

definition in_session :: "state \<Rightarrow> session \<Rightarrow> nat \<Rightarrow> blob list \<Rightarrow> state \<Rightarrow> bool" where
  "in_session s0 x k cs s \<longleftrightarrow>
     (if isRecording s
      then recordings s = recordings s0 \<and> currentRecording s = currentRecording s0 \<and>
           stoppedTracks s = stoppedTracks s0 \<and> streamRef s = Some (combined x) \<and>
           chunksRef s = filter (\<lambda>c. blob_size c > 0) cs \<and>
           length (recorders s0) < length (recorders s) \<and>
           onstop_recordingTime (recorders s ! length (recorders s0)) = sc_recordingTime (startRecording_scope s0) \<and>
           recordingTime s = min (int k) 180 \<and>
           (rendered s0 \<longrightarrow> rendered s) \<and>
           mediaRecorderRef s = Some (length (recorders s0)) \<and>
           rstate (recorders s ! length (recorders s0)) = Recording \<and>
           timerRef s = Some (length (intervals s0)) \<and>
           length (intervals s0) < length (intervals s) \<and>
           \<not> cleared (intervals s ! length (intervals s0))
      else stop_pending s0 x k cs s \<and> recordingTime s = 180 \<and>
           (length (intervals s0) < length (intervals s) \<and> cleared (intervals s ! length (intervals s0))))"

definition artifact :: "int \<Rightarrow> session \<Rightarrow> recording" where
  "artifact d x =
     (let b = new_Blob (filter (\<lambda>c. blob_size c > 0) (chunks x)) ''video/webm''
      in \<lparr>id_rec = toString (Date_now (final x)), blob_rec = b,
          url_rec = createObjectURL (final x), duration = d,
          timestamp = new_Date (final x), size_rec = blob_size b\<rparr>)"

text \<open>
  \<open>armed s0 k s\<close>: in the session started in \<open>s0\<close> the timer's closure holds
  \<^verbatim>\<open>isRecording = true\<close>, and after \<open>k\<close> firings, from the 180th on, the
  session is stopped. \<open>bounded s\<close>: the counter, the counters in the closures and
  the durations in the history are between 0 and 180.
\<close>

definition armed :: "state \<Rightarrow> nat \<Rightarrow> state \<Rightarrow> bool" where
  "armed s0 k s \<longleftrightarrow>
     length (intervals s0) < length (intervals s) \<and>
     timer_isRecording (intervals s ! length (intervals s0)) \<and>
     (k < 180 \<or> \<not> isRecording s)"

definition in_range :: "int \<Rightarrow> bool" where
  "in_range d \<longleftrightarrow> 0 \<le> d \<and> d \<le> 180"

definition bounded :: "state \<Rightarrow> bool" where
  "bounded s \<longleftrightarrow>
     in_range (recordingTime s) \<and> in_range (sc_recordingTime (startRecording_scope s)) \<and>
     list_all (\<lambda>m. in_range (onstop_recordingTime m)) (recorders s) \<and>
     list_all (\<lambda>c. in_range (sc_recordingTime (closure c))) (invocations s) \<and>
     list_all (\<lambda>a. in_range (duration a)) (recordings s)"

subsection \<open>Concrete inputs\<close>

text \<open>
  Two screens and two microphones with tracks of their own, a clock reading, a finalisation
  that succeeds, a platform that grants the screen and denies the microphone, two sessions
  (the first delivers no data), a recording made at 2025-01-02T03:04:05.678Z,
  \<open>overlap\<close>, the events of a second click on \<^verbatim>\<open>Start Recording\<close> while
  the first call waits for the microphone, and two states of a freshly mounted component:
  \<open>active0\<close> after a first click on \<^verbatim>\<open>Start Recording\<close> with both sources
  granted, \<open>idle1\<close> after a first session of two seconds that the user has stopped.
\<close>

definition screen0 :: media_stream where
  "screen0 = \<lparr>videoTracks = [0], audioTracks = []\<rparr>"

definition mic0 :: media_stream where
  "mic0 = \<lparr>videoTracks = [], audioTracks = [1]\<rparr>"

definition screen1 :: media_stream where
  "screen1 = \<lparr>videoTracks = [2], audioTracks = []\<rparr>"

definition mic1 :: media_stream where
  "mic1 = \<lparr>videoTracks = [], audioTracks = [3]\<rparr>"

definition date0 :: js_date where
  "date0 = \<lparr>utc_year = 2025, utc_month = 1, utc_day = 2, utc_hours = 3, utc_minutes = 4,
             utc_seconds = 5, utc_milliseconds = 678\<rparr>"

definition final0 :: finalization where
  "final0 = \<lparr>createObjectURL = ''blob:0'', Date_now = 1735787045678, new_Date = date0\<rparr>"

definition denied_audio :: platform where
  "denied_audio = \<lparr>getDisplayMedia = Inr screen0, getUserMedia = Inl NotAllowedError,
                    new_MediaRecorder = None, recorder_start = None\<rparr>"

definition session0 :: session where
  "session0 = \<lparr>display = screen0, microphone = mic0, seconds = 5, chunks = [], final = final0\<rparr>"

definition session1 :: session where
  "session1 = \<lparr>display = screen1, microphone = mic1, seconds = 10,
       chunks = [\<lparr>blob_size = 7, blob_type = ''video/webm''\<rparr>, \<lparr>blob_size = 0, blob_type = ''video/webm''\<rparr>,
                 \<lparr>blob_size = 5, blob_type = ''video/webm''\<rparr>],
       final = final0\<lparr>createObjectURL := ''blob:1''\<rparr>\<rparr>"

definition recording0 :: recording where
  "recording0 = \<lparr>id_rec = ''1735787045678'', blob_rec = new_Blob [] ''video/webm'',
                  url_rec = ''blob:0'', duration = 0, timestamp = date0, size_rec = 0\<rparr>"

definition overlap :: "event list" where
  "overlap =
     [Click, Display_settled 0 (granted screen0 mic0), Click,
      Audio_settled 0 (granted screen0 mic0),
      Display_settled 1 (granted screen1 mic1), Audio_settled 1 (granted screen1 mic1)]"

definition active0 :: state where
  "active0 = run (start_events 0 (granted screen0 mic0)) initial"

definition idle1 :: state where
  "idle1 = run (start_events 0 (granted screen0 mic0) @
                [Tick 0, Tick 0, Click, Stopped 0 (Inr final0)]) initial"

section \<open>Properties\<close>

subsection \<open>Sessions step by step\<close>

lemma in_session_start:
  assumes "\<not> isRecording s0"
  shows "in_session s0 x 0 []
           (run (start_events (length (invocations s0)) (granted (display x) (microphone x))) s0)"
  using assms
  by (simp add: in_session_def rendered_def step_def dispatch_def click_def main_control_def
      start_events_def startRecording_call_def startRecording_display_def startRecording_audio_def proceed_def
      granted_def startTimer_def toast_def rerender_def combined_def Let_def nth_append)

lemma in_session_tick:
  assumes "in_session s0 x k cs s"
  shows "in_session s0 x (Suc k) cs (step (Tick (length (intervals s0))) s)"
proof (cases "isRecording s")
  case True
  with assms show ?thesis
    by (auto simp add: in_session_def stop_pending_def rendered_def step_def dispatch_def timer_callback_def stopRecording_def
        recorder_stop_def stopTimer_def toast_def rerender_def Let_def min_def)
next
  case False
  with assms show ?thesis
    by (auto simp add: in_session_def stop_pending_def rendered_def step_def dispatch_def rerender_def min_def)
qed

lemma in_session_data:
  assumes "in_session s0 x k cs s"
  shows "in_session s0 x k (cs @ [c]) (step (Data (length (recorders s0)) c) s)"
  using assms
  by (auto simp add: in_session_def stop_pending_def rendered_def step_def dispatch_def ondataavailable_def rerender_def)

lemma in_session_stop:
  assumes "in_session s0 x k cs s" "isRecording s"
  shows "stop_pending s0 x k cs (step Click s)"
  using assms
  by (auto simp add: in_session_def stop_pending_def rendered_def step_def dispatch_def click_def main_control_def
      stopRecording_def recorder_stop_def stopTimer_def toast_def rerender_def)

lemma stop_pending_final:
  assumes "stop_pending s0 x k (chunks x) s"
  shows "recordings (step (Stopped (length (recorders s0)) (Inr (final x))) s) =
           artifact (sc_recordingTime (startRecording_scope s0)) x # recordings s0"
    and "currentRecording (step (Stopped (length (recorders s0)) (Inr (final x))) s) =
           Some (artifact (sc_recordingTime (startRecording_scope s0)) x)"
    and "stoppedTracks (step (Stopped (length (recorders s0)) (Inr (final x))) s) =
           stoppedTracks s0 @ getTracks (combined x)"
    and "streamRef (step (Stopped (length (recorders s0)) (Inr (final x))) s) = None"
    and "\<not> isRecording (step (Stopped (length (recorders s0)) (Inr (final x))) s)"
    and "recordingTime (step (Stopped (length (recorders s0)) (Inr (final x))) s) = min (int k) 180"
    and "rendered s0 \<longrightarrow> rendered (step (Stopped (length (recorders s0)) (Inr (final x))) s)"
  using assms
  by (simp_all add: stop_pending_def rendered_def step_def dispatch_def onstop_def rerender_def artifact_def Let_def)

lemma run_append: "run (evs @ evs') s = run evs' (run evs s)"
  by (induction evs arbitrary: s) simp_all

lemma in_session_ticks:
  "in_session s0 x k cs s \<Longrightarrow> in_session s0 x (k + n) cs (run (replicate n (Tick (length (intervals s0)))) s)"
proof (induction n arbitrary: k s)
  case 0
  then show ?case by simp
next
  case (Suc n)
  from Suc.IH [OF in_session_tick [OF Suc.prems]] show ?case by simp
qed

lemma in_session_datas:
  "in_session s0 x k cs s \<Longrightarrow> in_session s0 x k (cs @ ds) (run (map (Data (length (recorders s0))) ds) s)"
proof (induction ds arbitrary: cs s)
  case Nil
  then show ?case by simp
next
  case (Cons d ds)
  from Cons.IH [OF in_session_data [OF Cons.prems]] show ?case by simp
qed

lemma in_session_session_events:
  assumes "\<not> isRecording s0"
  shows "in_session s0 x (seconds x) (chunks x) (run (session_events x s0) s0)"
proof -
  have "in_session s0 x (0 + seconds x) ([] @ chunks x)
          (run (map (Data (length (recorders s0))) (chunks x))
             (run (replicate (seconds x) (Tick (length (intervals s0))))
                (run (start_events (length (invocations s0)) (granted (display x) (microphone x))) s0)))"
    by (intro in_session_datas in_session_ticks in_session_start assms)
  then show ?thesis
    by (simp add: session_events_def Let_def run_append)
qed

lemma stop_pending_before_final:
  assumes "\<not> isRecording s0"
  shows "\<exists>s. stop_pending s0 x (seconds x) (chunks x) s \<and>
             do_session x s0 = step (Stopped (length (recorders s0)) (Inr (final x))) s"
proof -
  let ?s1 = "run (session_events x s0) s0"
  have m: "in_session s0 x (seconds x) (chunks x) ?s1"
    using assms by (rule in_session_session_events)
  show ?thesis
  proof (cases "isRecording ?s1")
    case True
    then have "stop_pending s0 x (seconds x) (chunks x) (step Click ?s1)"
      using m by (intro in_session_stop)
    with True show ?thesis
      by (auto simp add: do_session_def Let_def main_control_def)
  next
    case False
    with m have "stop_pending s0 x (seconds x) (chunks x) ?s1"
      by (simp add: in_session_def)
    with False show ?thesis
      by (auto simp add: do_session_def Let_def main_control_def)
  qed
qed

lemma do_session_effect:
  assumes "\<not> isRecording s0"
  shows "recordings (do_session x s0) =
           artifact (sc_recordingTime (startRecording_scope s0)) x # recordings s0"
    and "currentRecording (do_session x s0) =
           Some (artifact (sc_recordingTime (startRecording_scope s0)) x)"
    and "stoppedTracks (do_session x s0) = stoppedTracks s0 @ getTracks (combined x)"
    and "streamRef (do_session x s0) = None"
    and "\<not> isRecording (do_session x s0)"
    and "recordingTime (do_session x s0) = min (int (seconds x)) 180"
    and "rendered s0 \<longrightarrow> rendered (do_session x s0)"
proof -
  from stop_pending_before_final [OF assms, of x] obtain s
    where s: "stop_pending s0 x (seconds x) (chunks x) s"
      and d: "do_session x s0 = step (Stopped (length (recorders s0)) (Inr (final x))) s"
    by blast
  from stop_pending_final [OF s] d
  show "recordings (do_session x s0) =
           artifact (sc_recordingTime (startRecording_scope s0)) x # recordings s0"
    and "currentRecording (do_session x s0) =
           Some (artifact (sc_recordingTime (startRecording_scope s0)) x)"
    and "stoppedTracks (do_session x s0) = stoppedTracks s0 @ getTracks (combined x)"
    and "streamRef (do_session x s0) = None"
    and "\<not> isRecording (do_session x s0)"
    and "recordingTime (do_session x s0) = min (int (seconds x)) 180"
    and "rendered s0 \<longrightarrow> rendered (do_session x s0)"
    by simp_all
qed

lemma do_sessions_idle:
  "\<not> isRecording s \<Longrightarrow> \<not> isRecording (do_sessions xs s)"
  by (induction xs arbitrary: s) (simp_all add: do_session_effect(5))

lemma do_sessions_rendered:
  "\<not> isRecording s \<Longrightarrow> rendered s \<Longrightarrow> rendered (do_sessions xs s)"
  by (induction xs arbitrary: s) (simp_all add: do_session_effect(5) do_session_effect(7))

lemma do_sessions_recordings:
  assumes "\<not> isRecording s" "rendered s"
  shows "recordings (do_sessions xs s) =
           rev (map2 artifact (butlast (recordingTime s # map (\<lambda>x. min (int (seconds x)) 180) xs)) xs)
           @ recordings s"
  using assms
proof (induction xs arbitrary: s)
  case Nil
  then show ?case by simp
next
  case (Cons x xs)
  have i: "\<not> isRecording (do_session x s)" and r: "rendered (do_session x s)"
    using Cons.prems by (simp_all add: do_session_effect(5) do_session_effect(7))
  have sc: "sc_recordingTime (startRecording_scope s) = recordingTime s"
    using Cons.prems(2) by (simp add: rendered_def)
  show ?case
    using Cons.IH [OF i r] Cons.prems(1) sc
    by (simp add: do_session_effect(1) do_session_effect(6))
qed

lemma do_sessions_current:
  assumes "\<not> isRecording s"
  shows "currentRecording (do_sessions (x # xs) s) = Some (hd (recordings (do_sessions (x # xs) s)))"
  using assms
proof (induction xs arbitrary: x s)
  case Nil
  then show ?case by (simp add: do_session_effect(1) do_session_effect(2))
next
  case (Cons y ys)
  have "\<not> isRecording (do_session x s)"
    using Cons.prems by (simp add: do_session_effect(5))
  from Cons.IH [OF this, of y] show ?case by simp
qed

lemma do_sessions_stoppedTracks:
  assumes "\<not> isRecording s"
  shows "stoppedTracks (do_sessions xs s) =
           stoppedTracks s @ concat (map (\<lambda>x. getTracks (combined x)) xs)"
  using assms
proof (induction xs arbitrary: s)
  case Nil
  then show ?case by simp
next
  case (Cons x xs)
  have "\<not> isRecording (do_session x s)"
    using Cons.prems by (simp add: do_session_effect(5))
  from Cons.IH [OF this] Cons.prems show ?case
    by (simp add: do_session_effect(3))
qed

lemma initial_idle: "\<not> isRecording initial" "rendered initial"
  by (simp_all add: initial_def rendered_def)

subsection \<open>Evaluating the concrete inputs\<close>

lemmas eval_defs = step_def dispatch_def click_def main_control_def start_events_def startRecording_call_def startRecording_display_def startRecording_audio_def proceed_def
  granted_def startTimer_def toast_def rerender_def initial_def screen0_def mic0_def
  screen1_def mic1_def timer_callback_def stopRecording_def recorder_stop_def stopTimer_def
  onstop_def ondataavailable_def new_Blob_def getTracks_def final0_def catch_start_def Let_def

lemma active0_eq:
  "active0 = initial\<lparr>isRecording := True, mediaRecorderRef := Some 0,
      streamRef := Some \<lparr>videoTracks = [0], audioTracks = [1]\<rparr>, timerRef := Some 0,
      recorders := [\<lparr>rstate = Recording, stop_queued = False, onstop_recordingTime = 0\<rparr>],
      intervals := [\<lparr>cleared = False, timer_isRecording = False\<rparr>],
      invocations := [\<lparr>closure = \<lparr>sc_isRecording = False, sc_recordingTime = 0\<rparr>,
                       awaiting = Returned\<rparr>],
      grantedTracks := [0, 1], toasts := [Recording_started]\<rparr>"
  by (simp add: active0_def eval_defs)

lemma idle1_scope: "sc_isRecording (startRecording_scope idle1)"
  "sc_recordingTime (startRecording_scope idle1) = 2"
  by (simp_all add: idle1_def eval_defs)

lemma idle1_fields:
  "isRecording idle1 = False" "mediaRecorderRef idle1 = Some 0" "recordingTime idle1 = 2"
  "map duration (recordings idle1) = [0]" "stoppedTracks idle1 = [0, 1]"
  by (simp_all add: idle1_def eval_defs)

subsection \<open>The elapsed-time counter\<close>

lemma recordingTime_stopRecording: "recordingTime (stopRecording b s) = recordingTime s"
  by (simp add: stopRecording_def recorder_stop_def stopTimer_def toast_def
      split: option.splits)

lemma recordingTime_timer_callback:
  "recordingTime (timer_callback b s) =
     (if 179 \<le> recordingTime s then 180 else recordingTime s + 1)"
  by (simp add: timer_callback_def)

lemma recordingTime_ticks:
  "recordingTime s \<le> 180 \<Longrightarrow>
   recordingTime ((timer_callback b ^^ n) s) = min (recordingTime s + int n) 180"
proof (induction n)
  case 0
  then show ?case by simp
next
  case (Suc n)
  then show ?case
    by (simp add: recordingTime_timer_callback min_def)
qed

text \<open>
  Claim C10. The counter under the timer's callback: one firing takes a counter below 179
  to its successor and a counter of 179 or more to 180; after the first firing the counter
  is at most 180 for ever; and from 0 the counter after \<open>n\<close> firings is the smaller of
  \<open>n\<close> and 180. All of this holds for either value of the \<^verbatim>\<open>isRecording\<close>
  in the timer's closure, that is, whether or not the call of \<^verbatim>\<open>stopRecording\<close>
  stops the recorder.
\<close>

theorem counter_pinned_at_180:
  "recordingTime (timer_callback b s) =
     (if 179 \<le> recordingTime s then 180 else recordingTime s + 1)
   \<and> recordingTime ((timer_callback b ^^ Suc n) s) \<le> 180
   \<and> (recordingTime s = 0 \<longrightarrow> recordingTime ((timer_callback b ^^ n) s) = min (int n) 180)"
proof (intro conjI impI)
  show "recordingTime (timer_callback b s) =
          (if 179 \<le> recordingTime s then 180 else recordingTime s + 1)"
    by (rule recordingTime_timer_callback)
  have "recordingTime ((timer_callback b ^^ n) (timer_callback b s)) =
          min (recordingTime (timer_callback b s) + int n) 180"
    by (rule recordingTime_ticks) (simp add: recordingTime_timer_callback)
  then show "recordingTime ((timer_callback b ^^ Suc n) s) \<le> 180"
    by (simp add: funpow_swap1)
  show "recordingTime ((timer_callback b ^^ n) s) = min (int n) 180" if "recordingTime s = 0"
    using recordingTime_ticks [where s = s and b = b and n = n] that by simp
qed

theorem counter_pinned_at_180_witness:
  "recordingTime initial = 0 \<and> recordingTime ((timer_callback False ^^ 200) initial) = 180
   \<and> recordingTime ((timer_callback True ^^ 7) initial) = 7"
  using counter_pinned_at_180 [where b = False and s = initial and n = 200]
    counter_pinned_at_180 [where b = True and s = initial and n = 7]
  by (simp add: initial_def)

subsection \<open>Stopping\<close>

text \<open>
  Claim C7. While no session is active (\<^verbatim>\<open>isRecording\<close> is false), the
  \<^verbatim>\<open>stopRecording\<close> of the current render returns the state as it is: no recording
  is made, the current recording, the history, the counter and the status stay, and so does
  everything else.
\<close>

theorem stop_when_idle:
  "\<not> isRecording s \<Longrightarrow> stopRecording (isRecording s) s = s"
  by (simp add: stopRecording_def split: option.splits)

theorem stop_when_idle_witness:
  "\<not> isRecording idle1 \<and> mediaRecorderRef idle1 = Some 0 \<and>
   stopRecording (isRecording idle1) idle1 = idle1"
  using stop_when_idle [of idle1]
  by (simp add: idle1_fields)

subsection \<open>Starting\<close>

text \<open>
  When the screen or the microphone is not acquired, what the component itself holds is as
  before, but for the toast \<^verbatim>\<open>Recording failed\<close>: the status, the counter, the
  current recording, the history, the refs, the recorders and the timers. In the second
  case the tracks of the screen have been handed out, and nothing stops them.
\<close>

lemma display_failed:
  assumes "\<not> isRecording s" "getDisplayMedia p = Inl e"
  shows "run (start_events (length (invocations s)) p) s =
           s\<lparr>invocations := invocations s @
                  [\<lparr>closure = startRecording_scope s, awaiting = Returned\<rparr>],
             toasts := toasts s @ [Recording_failed]\<rparr>"
  using assms
  by (simp add: start_events_def step_def dispatch_def click_def main_control_def
      startRecording_call_def startRecording_display_def proceed_def catch_start_def toast_def
      rerender_def nth_append)

lemma audio_failed:
  assumes "\<not> isRecording s" "getDisplayMedia p = Inr d" "getUserMedia p = Inl e"
  shows "run (start_events (length (invocations s)) p) s =
           s\<lparr>invocations := invocations s @
                  [\<lparr>closure = startRecording_scope s, awaiting = Returned\<rparr>],
             grantedTracks := grantedTracks s @ getTracks d,
             toasts := toasts s @ [Recording_failed]\<rparr>"
  using assms
  by (simp add: start_events_def step_def dispatch_def click_def main_control_def
      startRecording_call_def startRecording_display_def startRecording_audio_def proceed_def
      catch_start_def toast_def rerender_def nth_append)

text \<open>
  Claim C4 asks that a failed acquisition leave no partial session. When the screen is
  granted and the microphone is denied, the component stays idle, makes no recorder and no
  recording and shows the toast, but the \<^verbatim>\<open>catch\<close> block does not stop the
  stream of the screen: its track was handed out, no track has been stopped, the call has
  returned and \<^verbatim>\<open>streamRef\<close> is empty, so the screen stays captured and nothing
  of the component can release it.
\<close>

theorem microphone_denied_leaves_screen_captured:
  "\<not> isRecording (run (start_events 0 denied_audio) initial) \<and>
   recordings (run (start_events 0 denied_audio) initial) = [] \<and>
   recorders (run (start_events 0 denied_audio) initial) = [] \<and>
   toasts (run (start_events 0 denied_audio) initial) = [Recording_failed] \<and>
   map awaiting (invocations (run (start_events 0 denied_audio) initial)) = [Returned] \<and>
   streamRef (run (start_events 0 denied_audio) initial) = None \<and>
   grantedTracks (run (start_events 0 denied_audio) initial) = [0] \<and>
   stoppedTracks (run (start_events 0 denied_audio) initial) = []"
  by (simp add: denied_audio_def eval_defs)

text \<open>
  Claim C3 asks that at most one session be active at any time. The only gate is the main
  button, which offers \<^verbatim>\<open>Start Recording\<close> while \<^verbatim>\<open>isRecording\<close> is
  false, and \<^verbatim>\<open>startRecording\<close> sets \<^verbatim>\<open>isRecording\<close> after its
  \<^verbatim>\<open>await\<close>s only. In \<open>overlap\<close> the user clicks the button again while the
  first call waits for the microphone: the button is still \<^verbatim>\<open>Start Recording\<close>.
  The first call starts its session; the second call then goes on while that session is
  active, and starts another. Two recorders record, two intervals fire, and the refs hold
  the second of each. A click on \<^verbatim>\<open>Stop Recording\<close> then stops the second session
  only: the first recorder goes on recording, its interval is not cleared and its tracks
  are not stopped.
\<close>

theorem second_click_starts_second_session:
  "main_control (run [Click, Display_settled 0 (granted screen0 mic0)] initial) = Start_Recording \<and>
   isRecording (run [Click, Display_settled 0 (granted screen0 mic0), Click,
                     Audio_settled 0 (granted screen0 mic0)] initial) \<and>
   map rstate (recorders (run overlap initial)) = [Recording, Recording] \<and>
   map cleared (intervals (run overlap initial)) = [False, False] \<and>
   mediaRecorderRef (run overlap initial) = Some 1 \<and>
   timerRef (run overlap initial) = Some 1 \<and>
   map rstate (recorders (run (overlap @ [Click, Stopped 1 (Inr final0)]) initial)) =
     [Recording, Inactive] \<and>
   map cleared (intervals (run (overlap @ [Click, Stopped 1 (Inr final0)]) initial)) =
     [False, True] \<and>
   grantedTracks (run (overlap @ [Click, Stopped 1 (Inr final0)]) initial) = [0, 1, 2, 3] \<and>
   stoppedTracks (run (overlap @ [Click, Stopped 1 (Inr final0)]) initial) = [2, 3] \<and>
   \<not> isRecording (run (overlap @ [Click, Stopped 1 (Inr final0)]) initial)"
  by (simp add: overlap_def eval_defs)

subsection \<open>Releasing the tracks\<close>

lemma count_list_distinct: "distinct xs \<Longrightarrow> t \<in> set xs \<Longrightarrow> count_list xs t = 1"
  by (induction xs) auto

lemma acquired_combined:
  "audioTracks (display x) = [] \<Longrightarrow> videoTracks (microphone x) = [] \<Longrightarrow>
   getTracks (combined x) = acquired x"
  by (simp add: acquired_def getTracks_def combined_def)

text \<open>
  Claim C5, as the claim states it, fails: when the finalisation in \<^verbatim>\<open>onstop\<close>
  throws, the handler ends before it reaches the release. Here a first session is started
  and stopped, and the \<^verbatim>\<open>stop\<close> event arrives with a failing finalisation: no
  track has been stopped, no \<^verbatim>\<open>stop\<close> event is left to come, and
  \<^verbatim>\<open>streamRef\<close> still holds the stream.
\<close>

theorem release_fails_with_finalisation_counterexample:
  "stoppedTracks (run (start_events 0 (granted screen0 mic0) @
                       [Click, Stopped 0 (Inl UnknownError)]) initial) = [] \<and>
   map stop_queued (recorders (run (start_events 0 (granted screen0 mic0) @
                       [Click, Stopped 0 (Inl UnknownError)]) initial)) = [False] \<and>
   streamRef (run (start_events 0 (granted screen0 mic0) @
                       [Click, Stopped 0 (Inl UnknownError)]) initial) =
     Some \<lparr>videoTracks = [0], audioTracks = [1]\<rparr>"
  by (simp add: eval_defs)

text \<open>
  Claim C5, amended. Over any sequence of sessions whose finalisations succeed, started in
  an idle component, every track that a session has acquired is stopped exactly once,
  provided that the platform hands out each track once (the tracks of the sessions are
  distinct and none was stopped before) and that, as the constraints ask, the screen comes
  without audio tracks and the microphone without video tracks.
\<close>

theorem tracks_released_once:
  assumes "\<not> isRecording s"
    and "\<forall>y \<in> set xs. audioTracks (display y) = [] \<and> videoTracks (microphone y) = []"
    and "distinct (stoppedTracks s @ concat (map acquired xs))"
    and "x \<in> set xs" and "t \<in> set (acquired x)"
  shows "count_list (stoppedTracks (do_sessions xs s)) t = 1"
proof -
  have "map (\<lambda>x. getTracks (combined x)) xs = map acquired xs"
    using assms(2) by (intro map_cong) (simp_all add: acquired_combined)
  then have "concat (map (\<lambda>x. getTracks (combined x)) xs) = concat (map acquired xs)"
    by (rule arg_cong)
  then have "stoppedTracks (do_sessions xs s) = stoppedTracks s @ concat (map acquired xs)"
    using assms(1) by (simp add: do_sessions_stoppedTracks)
  moreover have "t \<in> set (stoppedTracks s @ concat (map acquired xs))"
    using assms(4,5) by auto
  ultimately show ?thesis
    using assms(3) by (simp only: count_list_distinct)
qed

theorem tracks_released_once_witness:
  "count_list (stoppedTracks (do_sessions [session0, session1] initial)) 0 = 1 \<and>
   count_list (stoppedTracks (do_sessions [session0, session1] initial)) 1 = 1 \<and>
   count_list (stoppedTracks (do_sessions [session0, session1] initial)) 2 = 1 \<and>
   count_list (stoppedTracks (do_sessions [session0, session1] initial)) 3 = 1 \<and>
   acquired session0 = [0, 1] \<and> acquired session1 = [2, 3]"
proof -
  have a: "acquired session0 = [0, 1]" "acquired session1 = [2, 3]"
    by (simp_all add: acquired_def session0_def session1_def getTracks_def screen0_def mic0_def
        screen1_def mic1_def)
  have h1: "\<not> isRecording initial"
    by (simp add: initial_def)
  have h2: "\<forall>y \<in> set [session0, session1]. audioTracks (display y) = [] \<and> videoTracks (microphone y) = []"
    by (simp add: session0_def session1_def screen0_def mic0_def screen1_def mic1_def)
  have h3: "distinct (stoppedTracks initial @ concat (map acquired [session0, session1]))"
    by (simp add: a initial_def)
  note r = tracks_released_once [OF h1 h2 h3]
  have "count_list (stoppedTracks (do_sessions [session0, session1] initial)) 0 = 1"
    by (rule r [of session0]) (simp_all add: a)
  moreover have "count_list (stoppedTracks (do_sessions [session0, session1] initial)) 1 = 1"
    by (rule r [of session0]) (simp_all add: a)
  moreover have "count_list (stoppedTracks (do_sessions [session0, session1] initial)) 2 = 1"
    by (rule r [of session1]) (simp_all add: a)
  moreover have "count_list (stoppedTracks (do_sessions [session0, session1] initial)) 3 = 1"
    by (rule r [of session1]) (simp_all add: a)
  ultimately show ?thesis using a by simp
qed

subsection \<open>The recordings\<close>

text \<open>
  Claim C6, as the claim states it, fails: \<^verbatim>\<open>onstop\<close> does not look at the
  chunks before it makes the recording. The session \<open>session0\<close> delivers no data and
  still yields one recording, of size 0.
\<close>

theorem empty_payload_counterexample:
  "chunks session0 = [] \<and> length (recordings (do_session session0 initial)) = 1 \<and>
   size_rec (hd (recordings (do_session session0 initial))) = 0"
  by (simp add: do_session_effect(1) initial_idle(1) artifact_def new_Blob_def session0_def)
     (simp add: initial_def)

text \<open>
  Claim C6, amended. Every session that is stopped and whose finalisation succeeds adds
  exactly one recording in front of the history, whatever data was delivered; the size of
  the recording is the sum of the sizes of the chunks, so 0 when there were none.
\<close>

theorem one_artifact_per_session:
  "\<not> isRecording s \<Longrightarrow>
   length (recordings (do_session x s)) = length (recordings s) + 1 \<and>
   tl (recordings (do_session x s)) = recordings s \<and>
   size_rec (hd (recordings (do_session x s))) = sum_list (map blob_size (chunks x))"
proof -
  have "sum_list (map blob_size (filter (\<lambda>c. 0 < blob_size c) cs)) = sum_list (map blob_size cs)" for cs
    by (induction cs) simp_all
  moreover assume "\<not> isRecording s"
  ultimately show ?thesis
    by (simp add: do_session_effect(1) artifact_def new_Blob_def)
qed

theorem one_artifact_per_session_witness:
  "\<not> isRecording initial \<and>
   length (recordings (do_session session0 initial)) = 1 \<and>
   size_rec (hd (recordings (do_session session0 initial))) = 0 \<and>
   length (recordings (do_session session1 initial)) = 1 \<and>
   size_rec (hd (recordings (do_session session1 initial))) = 12"
  using one_artifact_per_session [of initial session0] one_artifact_per_session [of initial session1]
  by (simp add: initial_def session0_def session1_def)

text \<open>
  Claim C8. After \<open>N\<close> sessions in a freshly mounted component the history has
  \<open>N\<close> entries and lists the recordings of the sessions from the last one to the first
  one (each recording is named by the object URL that its session's finalisation got); when
  \<open>N > 0\<close>, its head is the recording of the last session, and the current recording
  is that head.
\<close>

theorem history_newest_first:
  "length (recordings (do_sessions xs initial)) = length xs \<and>
   map url_rec (recordings (do_sessions xs initial)) =
     rev (map (\<lambda>x. createObjectURL (final x)) xs) \<and>
   (xs \<noteq> [] \<longrightarrow>
      url_rec (hd (recordings (do_sessions xs initial))) = createObjectURL (final (last xs)) \<and>
      currentRecording (do_sessions xs initial) = Some (hd (recordings (do_sessions xs initial))))"
proof -
  let ?ds = "butlast (recordingTime initial # map (\<lambda>x. min (int (seconds x)) 180) xs)"
  have len: "length ?ds = length xs" by simp
  have r: "recordings (do_sessions xs initial) = rev (map2 artifact ?ds xs)"
    using do_sessions_recordings [OF initial_idle, of xs] by (simp add: initial_def)
  have u: "map url_rec (map2 artifact ds ys) = map (\<lambda>x. createObjectURL (final x)) ys"
    if "length ds = length ys" for ds ys
    using that by (induction ds ys rule: list_induct2) (simp_all add: artifact_def Let_def)
  have 1: "length (recordings (do_sessions xs initial)) = length xs"
    using r len by simp
  have 2: "map url_rec (recordings (do_sessions xs initial)) =
             rev (map (\<lambda>x. createObjectURL (final x)) xs)"
    using r u [OF len] by (simp add: rev_map [symmetric])
  have 3: "url_rec (hd (recordings (do_sessions xs initial))) = createObjectURL (final (last xs))"
    if ne: "xs \<noteq> []"
  proof -
    have "recordings (do_sessions xs initial) \<noteq> []"
      using 1 ne by auto
    then have "url_rec (hd (recordings (do_sessions xs initial))) =
                 hd (map url_rec (recordings (do_sessions xs initial)))"
      by (simp add: hd_map)
    then show ?thesis
      using 2 ne by (simp add: hd_rev last_map)
  qed
  have 4: "currentRecording (do_sessions xs initial) = Some (hd (recordings (do_sessions xs initial)))"
    if ne: "xs \<noteq> []"
  proof -
    obtain y ys where "xs = y # ys" using ne by (cases xs) auto
    then show ?thesis
      using do_sessions_current [OF initial_idle(1), of y ys] by simp
  qed
  from 1 2 3 4 show ?thesis by simp
qed

theorem history_newest_first_witness:
  "length (recordings (do_sessions [session0, session1] initial)) = 2 \<and>
   map url_rec (recordings (do_sessions [session0, session1] initial)) = [''blob:1'', ''blob:0''] \<and>
   map_option url_rec (currentRecording (do_sessions [session0, session1] initial)) = Some ''blob:1''"
  using history_newest_first [of "[session0, session1]"]
  by (simp add: session0_def session1_def final0_def)

subsection \<open>The duration of a recording\<close>

lemma in_range_nth:
  "list_all (\<lambda>m. in_range (onstop_recordingTime m)) ms \<Longrightarrow> r < length ms \<Longrightarrow>
   in_range (onstop_recordingTime (ms ! r))"
  by (simp add: list_all_length)

lemma in_range_update:
  "list_all (\<lambda>m. in_range (onstop_recordingTime m)) ms \<Longrightarrow> r < length ms \<Longrightarrow>
   onstop_recordingTime m' = onstop_recordingTime (ms ! r) \<Longrightarrow>
   list_all (\<lambda>m. in_range (onstop_recordingTime m)) (ms[r := m'])"
  by (simp add: list_all_length nth_list_update)

lemma bounded_stopRecording: "bounded s \<Longrightarrow> bounded (stopRecording b s)"
  by (auto simp add: bounded_def stopRecording_def recorder_stop_def stopTimer_def toast_def
      in_range_update split: option.splits)

lemma in_range_closure:
  "list_all (\<lambda>c. in_range (sc_recordingTime (closure c))) cs \<Longrightarrow> c < length cs \<Longrightarrow>
   in_range (sc_recordingTime (closure (cs ! c)))"
  by (simp add: list_all_length)

lemma in_range_proceed:
  "list_all (\<lambda>c. in_range (sc_recordingTime (closure c))) cs \<Longrightarrow> c < length cs \<Longrightarrow>
   list_all (\<lambda>c. in_range (sc_recordingTime (closure c))) (cs[c := (cs ! c)\<lparr>awaiting := a\<rparr>])"
  by (simp add: list_all_length nth_list_update)

lemma bounded_startRecording_call:
  "bounded s \<Longrightarrow> bounded (startRecording_call (startRecording_scope s) s)"
  by (simp add: bounded_def startRecording_call_def)

lemma bounded_startRecording_display:
  "bounded s \<Longrightarrow> c < length (invocations s) \<Longrightarrow> bounded (startRecording_display c p s)"
  by (auto simp add: bounded_def startRecording_display_def proceed_def catch_start_def
      toast_def in_range_proceed split: sum.splits)

lemma bounded_startRecording_audio:
  "bounded s \<Longrightarrow> c < length (invocations s) \<Longrightarrow> bounded (startRecording_audio c d p s)"
proof -
  have z: "in_range 0"
    by (simp add: in_range_def)
  assume "bounded s" "c < length (invocations s)"
  then show ?thesis
    by (auto simp add: bounded_def startRecording_audio_def proceed_def catch_start_def
        startTimer_def toast_def Let_def in_range_proceed in_range_closure z
        split: sum.splits option.splits)
qed

lemma bounded_dispatch: "bounded s \<Longrightarrow> bounded (dispatch ev s)"
proof (cases ev)
  case Click
  assume "bounded s"
  then show ?thesis
    unfolding Click
    by (simp add: dispatch_def click_def bounded_stopRecording bounded_startRecording_call
        split: control.splits)
next
  case (Display_settled c p)
  assume "bounded s"
  then show ?thesis
    unfolding Display_settled
    by (simp add: dispatch_def bounded_startRecording_display split: await.splits)
next
  case (Audio_settled c p)
  assume "bounded s"
  then show ?thesis
    unfolding Audio_settled
    by (simp add: dispatch_def bounded_startRecording_audio split: await.splits)
next
  case (Tick i)
  assume b: "bounded s"
  have "bounded ((stopRecording c s)\<lparr>recordingTime := 180\<rparr>)" for c
    using bounded_stopRecording [OF b, of c] by (simp add: bounded_def in_range_def)
  moreover have "bounded (s\<lparr>recordingTime := recordingTime s + 1\<rparr>)" if "\<not> 179 \<le> recordingTime s"
    using b that by (simp add: bounded_def in_range_def)
  ultimately show ?thesis
    unfolding Tick using b by (simp add: dispatch_def timer_callback_def)
next
  case (Data r c)
  assume "bounded s"
  then show ?thesis
    unfolding Data by (simp add: dispatch_def ondataavailable_def bounded_def)
next
  case (Stopped r fin)
  assume "bounded s"
  then show ?thesis
    unfolding Stopped
    by (cases fin)
      (auto simp add: dispatch_def onstop_def bounded_def Let_def in_range_update in_range_nth)
next
  case (Download a)
  assume "bounded s"
  then show ?thesis
    unfolding Download by (simp add: dispatch_def downloadRecording_def toast_def bounded_def)
qed

lemma bounded_step: "bounded s \<Longrightarrow> bounded (step ev s)"
  using bounded_dispatch [of s ev]
  by (simp add: step_def rerender_def bounded_def Let_def)

lemma bounded_run: "bounded s \<Longrightarrow> bounded (run evs s)"
  by (induction evs arbitrary: s) (simp_all add: bounded_step)

text \<open>
  On every run of a freshly mounted component, whatever the events, the durations in the
  history are between 0 and 180.
\<close>

lemma duration_bounds:
  "list_all (\<lambda>a. 0 \<le> duration a \<and> duration a \<le> 180) (recordings (run evs initial))"
proof -
  have "bounded initial"
    by (simp add: bounded_def initial_def in_range_def)
  then have "bounded (run evs initial)"
    by (rule bounded_run)
  then show ?thesis
    by (simp add: bounded_def in_range_def)
qed

lemma stale_ticks:
  "\<exists>sc. run (replicate n (Tick 0))
           (active0\<lparr>recordingTime := min (int k) 180, startRecording_scope := sc0\<rparr>) =
         active0\<lparr>recordingTime := min (int (k + n)) 180, startRecording_scope := sc\<rparr>"
proof (induction n arbitrary: k sc0)
  case 0
  then show ?case by auto
next
  case (Suc n)
  have "\<exists>sc. step (Tick 0) (active0\<lparr>recordingTime := min (int k) 180, startRecording_scope := sc0\<rparr>) =
          active0\<lparr>recordingTime := min (int (Suc k)) 180, startRecording_scope := sc\<rparr>"
    by (simp add: active0_eq eval_defs min_def)
  then obtain sc1 where
    "step (Tick 0) (active0\<lparr>recordingTime := min (int k) 180, startRecording_scope := sc0\<rparr>) =
       active0\<lparr>recordingTime := min (int (Suc k)) 180, startRecording_scope := sc1\<rparr>"
    by blast
  with Suc.IH [where k = "Suc k" and ?sc0.0 = sc1] show ?case by simp
qed

text \<open>
  Claim C1 asks that the session be stopped when the counter reaches the cap. In the first
  session of a freshly mounted component it is not: the \<^verbatim>\<open>stopRecording\<close> that the
  timer calls belongs to the first render, where \<^verbatim>\<open>isRecording\<close> is false, and
  its guard fails. After the click on \<^verbatim>\<open>Start Recording\<close> and any number \<open>n\<close>
  of firings of the timer, with no click on \<^verbatim>\<open>Stop Recording\<close>, the component still
  records: the recorder is recording, the interval is not cleared, no recording has been
  made, and the counter shows the smaller of \<open>n\<close> and 180.
\<close>

theorem first_session_is_not_stopped_at_the_cap:
  "isRecording (run (start_events 0 (granted screen0 mic0) @ replicate n (Tick 0)) initial) \<and>
   map rstate (recorders (run (start_events 0 (granted screen0 mic0) @ replicate n (Tick 0)) initial)) = [Recording] \<and>
   map cleared (intervals (run (start_events 0 (granted screen0 mic0) @ replicate n (Tick 0)) initial)) = [False] \<and>
   recordings (run (start_events 0 (granted screen0 mic0) @ replicate n (Tick 0)) initial) = [] \<and>
   recordingTime (run (start_events 0 (granted screen0 mic0) @ replicate n (Tick 0)) initial) = min (int n) 180"
proof -
  have a: "active0 = active0\<lparr>recordingTime := min (int 0) 180,
                               startRecording_scope := startRecording_scope active0\<rparr>"
    by (simp add: active0_eq initial_def)
  from stale_ticks [where n = n and k = 0 and ?sc0.0 = "startRecording_scope active0"] obtain sc where
    "run (replicate n (Tick 0)) active0 =
       active0\<lparr>recordingTime := min (int n) 180, startRecording_scope := sc\<rparr>"
    unfolding a [symmetric] by auto
  then have "run (start_events 0 (granted screen0 mic0) @ replicate n (Tick 0)) initial =
       active0\<lparr>recordingTime := min (int n) 180, startRecording_scope := sc\<rparr>"
    by (simp add: active0_def run_append)
  then show ?thesis
    by (simp add: active0_eq initial_def)
qed

lemma armed_start:
  assumes "\<not> isRecording s0" "sc_isRecording (startRecording_scope s0)"
  shows "armed s0 0
           (run (start_events (length (invocations s0)) (granted (display x) (microphone x))) s0)"
  using assms
  by (simp add: armed_def step_def dispatch_def click_def main_control_def
      start_events_def startRecording_call_def startRecording_display_def startRecording_audio_def proceed_def
      granted_def startTimer_def toast_def rerender_def Let_def nth_append)

lemma armed_tick:
  assumes "in_session s0 x k cs s" "armed s0 k s"
  shows "armed s0 (Suc k) (step (Tick (length (intervals s0))) s)"
proof (cases "isRecording s")
  case True
  with assms show ?thesis
    by (auto simp add: in_session_def armed_def step_def dispatch_def timer_callback_def
        stopRecording_def recorder_stop_def stopTimer_def toast_def rerender_def)
next
  case False
  with assms show ?thesis
    by (auto simp add: in_session_def armed_def step_def dispatch_def rerender_def)
qed

lemma armed_data:
  assumes "armed s0 k s"
  shows "armed s0 k (step (Data r c) s)"
  using assms
  by (auto simp add: armed_def step_def dispatch_def ondataavailable_def rerender_def)

lemma armed_ticks:
  "in_session s0 x k cs s \<Longrightarrow> armed s0 k s \<Longrightarrow>
   armed s0 (k + n) (run (replicate n (Tick (length (intervals s0)))) s)"
proof (induction n arbitrary: k s)
  case 0
  then show ?case by simp
next
  case (Suc n)
  from Suc.IH [OF in_session_tick [OF Suc.prems(1)] armed_tick [OF Suc.prems]] show ?case by simp
qed

lemma armed_datas: "armed s0 k s \<Longrightarrow> armed s0 k (run (map (Data r) ds) s)"
  by (induction ds arbitrary: s) (simp_all add: armed_data)

text \<open>
  When the closure of the memoised \<^verbatim>\<open>startRecording\<close> holds
  \<^verbatim>\<open>isRecording = true\<close> (it was made by a render during an earlier session), the
  timer does stop the session at the 180th firing.
\<close>

lemma timer_stops_armed_session:
  assumes "\<not> isRecording s0" "sc_isRecording (startRecording_scope s0)" "180 \<le> seconds x"
  shows "\<not> isRecording (run (session_events x s0) s0)"
proof -
  let ?s1 = "run (start_events (length (invocations s0)) (granted (display x) (microphone x))) s0"
  have "armed s0 (0 + seconds x) (run (replicate (seconds x) (Tick (length (intervals s0)))) ?s1)"
    using assms(1,2) by (intro armed_ticks [where x = x and cs = "[]"] in_session_start armed_start)
  then have "armed s0 (seconds x) (run (session_events x s0) s0)"
    by (simp add: session_events_def Let_def run_append armed_datas)
  with assms(3) show ?thesis
    by (simp add: armed_def)
qed

lemma durations_of_sessions:
  "map duration (recordings (do_sessions xs initial)) =
     rev (butlast (0 # map (\<lambda>x. min (int (seconds x)) 180) xs))"
proof -
  have d: "map duration (map2 artifact ds ys) = ds" if "length ds = length ys" for ds ys
    using that by (induction ds ys rule: list_induct2) (simp_all add: artifact_def Let_def)
  have "length (butlast (0 # map (\<lambda>x. min (int (seconds x)) 180) xs)) = length xs"
    by simp
  from d [OF this] show ?thesis
    using do_sessions_recordings [OF initial_idle, of xs]
    by (simp add: initial_def rev_map [symmetric])
qed

text \<open>
  Claim C2 asks that the duration of a recording be the seconds that elapsed in its session.
  It is the counter that the component showed when \<^verbatim>\<open>Start Recording\<close> was
  clicked, that is, the seconds of the session before (0 in a fresh component): two sessions
  of 5 and 10 seconds leave the durations 5 and 0 in the history, newest first; and a second
  session that the timer stops at the cap, after a first session of 2 seconds, gets the
  duration 2.
\<close>

theorem durations_lag_one_session_behind:
  "map duration (recordings (do_sessions [x\<lparr>seconds := 5\<rparr>, y\<lparr>seconds := 10\<rparr>] initial)) = [5, 0] \<and>
   \<not> isRecording (run (session_events (session1\<lparr>seconds := 180\<rparr>) idle1) idle1) \<and>
   map duration (recordings (do_session (session1\<lparr>seconds := 180\<rparr>) idle1)) = [2, 0]"
proof -
  have "map duration (recordings (do_sessions [x\<lparr>seconds := 5\<rparr>, y\<lparr>seconds := 10\<rparr>] initial)) = [5, 0]"
    by (simp add: durations_of_sessions del: do_sessions.simps)
  moreover have "\<not> isRecording (run (session_events (session1\<lparr>seconds := 180\<rparr>) idle1) idle1)"
    by (simp add: timer_stops_armed_session idle1_fields(1) idle1_scope(1))
  moreover have "map duration (recordings (do_session (session1\<lparr>seconds := 180\<rparr>) idle1)) = [2, 0]"
    using idle1_fields(4)
    by (simp add: idle1_fields(1) idle1_scope(2) do_session_effect(1) artifact_def Let_def)
  ultimately show ?thesis by simp
qed

subsection \<open>Downloading\<close>

lemma length_toString: "0 < k \<Longrightarrow> n < 10 ^ k \<Longrightarrow> length (toString n) \<le> k"
proof (induction k arbitrary: n)
  case 0
  then show ?case by simp
next
  case (Suc k)
  show ?case
  proof (cases "n < 10")
    case True
    then show ?thesis by (simp add: toString.simps [of n])
  next
    case False
    then have "0 < k" using Suc.prems(2) by (cases k) simp_all
    moreover have "n div 10 < 10 ^ k" using Suc.prems(2) by (simp add: less_mult_imp_div_less)
    ultimately have "length (toString (n div 10)) \<le> k" by (rule Suc.IH)
    with False show ?thesis by (simp add: toString.simps [of n])
  qed
qed

lemma length_padStart_toString:
  "0 < k \<Longrightarrow> n < 10 ^ k \<Longrightarrow> length (padStart k c (toString n)) = k"
  using length_toString [of k n] by (simp add: padStart_def)

lemma slice0_append: "length xs = k \<Longrightarrow> slice0 k (xs @ ys) = xs"
  by (simp add: slice0_def)

text \<open>
  Claim C9. For a recording whose timestamp has a year of four digits (0 to 9999, with
  month, day, hours, minutes and seconds in their calendar ranges), the name of the
  downloaded file is \<^verbatim>\<open>screen-recording-\<close>, the timestamp as
  \<^verbatim>\<open>YYYY-MM-DDTHH:mm:ss\<close> in UTC without the milliseconds, and \<^verbatim>\<open>.webm\<close>: 41
  characters; \<^verbatim>\<open>downloadRecording\<close> offers the recording's URL under that name. The
  witness is the timestamp 2025-01-02T03:04:05.
\<close>

theorem download_name_format:
  assumes "0 \<le> utc_year (timestamp r)" "utc_year (timestamp r) \<le> 9999"
    and "utc_month (timestamp r) \<le> 12" "utc_day (timestamp r) \<le> 31"
    and "utc_hours (timestamp r) \<le> 23" "utc_minutes (timestamp r) \<le> 59"
    and "utc_seconds (timestamp r) \<le> 59"
  shows "download_name r =
           ''screen-recording-'' @
           padStart 4 CHR ''0'' (toString (nat (utc_year (timestamp r)))) @ ''-'' @
           padStart 2 CHR ''0'' (toString (utc_month (timestamp r))) @ ''-'' @
           padStart 2 CHR ''0'' (toString (utc_day (timestamp r))) @ ''T'' @
           padStart 2 CHR ''0'' (toString (utc_hours (timestamp r))) @ '':'' @
           padStart 2 CHR ''0'' (toString (utc_minutes (timestamp r))) @ '':'' @
           padStart 2 CHR ''0'' (toString (utc_seconds (timestamp r))) @ ''.webm''
         \<and> length (download_name r) = 41
         \<and> downloads (downloadRecording r s) = downloads s @ [(url_rec r, download_name r)]"
proof -
  let ?d = "timestamp r"
  let ?y = "padStart 4 CHR ''0'' (toString (nat (utc_year ?d)))"
  let ?mo = "padStart 2 CHR ''0'' (toString (utc_month ?d))"
  let ?da = "padStart 2 CHR ''0'' (toString (utc_day ?d))"
  let ?h = "padStart 2 CHR ''0'' (toString (utc_hours ?d))"
  let ?mi = "padStart 2 CHR ''0'' (toString (utc_minutes ?d))"
  let ?se = "padStart 2 CHR ''0'' (toString (utc_seconds ?d))"
  let ?head = "?y @ ''-'' @ ?mo @ ''-'' @ ?da @ ''T'' @ ?h @ '':'' @ ?mi @ '':'' @ ?se"
  let ?rest = "''.'' @ padStart 3 CHR ''0'' (toString (utc_milliseconds ?d)) @ ''Z''"
  have ly: "length ?y = 4"
    using assms(1,2) by (intro length_padStart_toString) simp_all
  have l2: "length ?mo = 2" "length ?da = 2" "length ?h = 2" "length ?mi = 2" "length ?se = 2"
    using assms(3-7) by (simp_all add: length_padStart_toString)
  have lh: "length ?head = 19"
    using ly l2 by simp
  have "toISOString ?d = ?head @ ?rest"
    using assms(1,2) by (simp add: toISOString_def year_string_def)
  then have "slice0 19 (toISOString ?d) = ?head"
    using lh by (simp only: slice0_append)
  then have n: "download_name r = ''screen-recording-'' @ ?head @ ''.webm''"
    by (simp only: download_name_def)
  have "length (download_name r) = 41"
    unfolding n using lh by simp
  moreover have "downloads (downloadRecording r s) = downloads s @ [(url_rec r, download_name r)]"
    by (simp add: downloadRecording_def toast_def)
  ultimately show ?thesis
    using n by simp
qed

theorem download_name_format_witness:
  "timestamp recording0 = date0 \<and>
   download_name recording0 = ''screen-recording-2025-01-02T03:04:05.webm'' \<and>
   downloads (downloadRecording recording0 initial) =
     [(''blob:0'', ''screen-recording-2025-01-02T03:04:05.webm'')]"
  using download_name_format [where r = recording0 and s = initial]
  by (simp add: recording0_def date0_def initial_def padStart_def toString.simps digit_def)

end
